theory Spec2Isabelle
  imports Main
begin

section \<open>Exceptions, log lines and collaborator calls\<close>

text \<open>
  The part of Python's exception hierarchy that \<^verbatim>\<open>main.py\<close> distinguishes.
  \<open>Exception msg\<close> stands for any instance of \<^verbatim>\<open>Exception\<close> (or of a subclass) whose
  \<^verbatim>\<open>str(e)\<close> is \<open>msg\<close>. The other three derive from \<^verbatim>\<open>BaseException\<close> only, so a
  clause \<^verbatim>\<open>except Exception\<close> does not catch them.
\<close>

datatype exn = Exception string | KeyboardInterrupt | SystemExit int | CancelledError

datatype level = INFO | WARNING | ERROR | CRITICAL

text \<open>The objects the bot keeps in its attributes; an attribute holds \<open>None\<close> or an object.\<close>

datatype handle =
    Config_obj | DatabaseManager_obj | CacheManager_obj
  | SteamAPIClient_obj | PriceTracker_obj | ErrorHandler_obj

text \<open>
  Every call that leaves \<^verbatim>\<open>main.py\<close>: constructors and methods of the imported
  collaborators and of the host framework. Constructors carry the attribute values
  they are given.
\<close>

datatype call =
    Config_new
  | Intents_default
  | Config_get string
  | Bot_super_init
  | ErrorHandler_new
  | DatabaseManager_new "handle option"
  | db_connect
  | CacheManager_new "handle option"
  | cache_connect
  | SteamAPIClient_new
  | PriceTracker_new "handle option" "handle option"
  | price_tracker_start
  | load_extension string
  | price_tracker_stop
  | db_close
  | cache_close
  | Bot_super_close

datatype event = Call call | Log level string

text \<open>
  The collaborators are outside the file: \<open>w c = None\<close> says that call \<open>c\<close> returns
  normally, \<open>w c = Some e\<close> that it raises \<open>e\<close>.
\<close>

type_synonym world = "call \<Rightarrow> exn option"

record bot =
  config :: "handle option"
  db :: "handle option"
  cache :: "handle option"
  steam_client :: "handle option"
  price_tracker :: "handle option"
  error_handler :: "handle option"

text \<open>The directory \<^verbatim>\<open>bot/cogs\<close> as \<open>load_cogs\<close> sees it: what \<^verbatim>\<open>exists()\<close> answers and
  the file names \<^verbatim>\<open>glob('*.py')\<close> yields, in order.\<close>

record filesystem =
  cogs_dir_exists :: bool
  cogs_dir_glob :: "string list"

section \<open>Sequencing: a trace of events, the attributes, and a result or an exception\<close>

type_synonym ('s, 'a) outcome = "event list \<times> 's \<times> (exn + 'a)"
type_synonym ('s, 'a) io = "'s \<Rightarrow> ('s, 'a) outcome"

definition events_of :: "('s, 'a) outcome \<Rightarrow> event list" where
  "events_of r = fst r"

definition state_of :: "('s, 'a) outcome \<Rightarrow> 's" where
  "state_of r = fst (snd r)"

definition result_of :: "('s, 'a) outcome \<Rightarrow> exn + 'a" where
  "result_of r = snd (snd r)"

definition after :: "event list \<Rightarrow> ('s, 'a) outcome \<Rightarrow> ('s, 'a) outcome" where
  "after ev r = (ev @ fst r, snd r)"

definition return_io :: "'a \<Rightarrow> ('s, 'a) io" where
  "return_io x = (\<lambda>s. ([], s, Inr x))"

definition raise_io :: "exn \<Rightarrow> ('s, 'a) io" where
  "raise_io e = (\<lambda>s. ([], s, Inl e))"

fun then_io :: "('s, 'a) outcome \<Rightarrow> ('a \<Rightarrow> ('s, 'b) io) \<Rightarrow> ('s, 'b) outcome" where
  "then_io (ev, s, Inl e) f = (ev, s, Inl e)"
| "then_io (ev, s, Inr x) f = after ev (f x s)"

definition bind_io :: "('s, 'a) io \<Rightarrow> ('a \<Rightarrow> ('s, 'b) io) \<Rightarrow> ('s, 'b) io" where
  "bind_io m f = (\<lambda>s. then_io (m s) f)"

definition seq_io :: "('s, 'a) io \<Rightarrow> ('s, 'b) io \<Rightarrow> ('s, 'b) io" where
  "seq_io m n = bind_io m (\<lambda>_. n)"

text \<open>A suite of statements, run in order until one raises.\<close>

fun block :: "('s, unit) io list \<Rightarrow> ('s, unit) io" where
  "block [] = return_io ()"
| "block (m # ms) = seq_io m (block ms)"

text \<open>A \<^verbatim>\<open>for\<close> loop over a list.\<close>

fun for_each :: "'a list \<Rightarrow> ('a \<Rightarrow> ('s, unit) io) \<Rightarrow> ('s, unit) io" where
  "for_each [] body = return_io ()"
| "for_each (x # xs) body = seq_io (body x) (for_each xs body)"

text \<open>
  \<^verbatim>\<open>try: ... except ...\<close>: the clauses are a function that answers, for the exception
  raised, the handler to run, or \<open>None\<close> when no clause matches and the exception goes on.
  An exception raised inside a handler is not caught by the same statement.
\<close>

fun catch_io :: "('s, 'a) outcome \<Rightarrow> (exn \<Rightarrow> ('s, 'a) io option) \<Rightarrow> ('s, 'a) outcome" where
  "catch_io (ev, s, Inr x) h = (ev, s, Inr x)"
| "catch_io (ev, s, Inl e) h =
     (case h e of None \<Rightarrow> (ev, s, Inl e) | Some k \<Rightarrow> after ev (k s))"

definition try_io :: "('s, 'a) io \<Rightarrow> (exn \<Rightarrow> ('s, 'a) io option) \<Rightarrow> ('s, 'a) io" where
  "try_io m h = (\<lambda>s. catch_io (m s) h)"

text \<open>\<^verbatim>\<open>except Exception as e:\<close> with the handler given \<^verbatim>\<open>str(e)\<close>.\<close>

fun except_Exception :: "(string \<Rightarrow> 'k) \<Rightarrow> exn \<Rightarrow> 'k option" where
  "except_Exception h (Exception msg) = Some (h msg)"
| "except_Exception h KeyboardInterrupt = None"
| "except_Exception h (SystemExit n) = None"
| "except_Exception h CancelledError = None"

text \<open>\<^verbatim>\<open>except KeyboardInterrupt:\<close> followed by the clauses \<open>rest\<close>.\<close>

fun except_KeyboardInterrupt :: "'k \<Rightarrow> (exn \<Rightarrow> 'k option) \<Rightarrow> exn \<Rightarrow> 'k option" where
  "except_KeyboardInterrupt k rest KeyboardInterrupt = Some k"
| "except_KeyboardInterrupt k rest (Exception msg) = rest (Exception msg)"
| "except_KeyboardInterrupt k rest (SystemExit n) = rest (SystemExit n)"
| "except_KeyboardInterrupt k rest CancelledError = rest CancelledError"

definition logger :: "level \<Rightarrow> string \<Rightarrow> ('s, unit) io" where
  "logger lvl msg = (\<lambda>s. ([Log lvl msg], s, Inr ()))"

definition await_call :: "world \<Rightarrow> call \<Rightarrow> ('s, unit) io" where
  "await_call w c = (\<lambda>s. ([Call c], s, case w c of None \<Rightarrow> Inr () | Some e \<Rightarrow> Inl e))"

definition modify_io :: "('s \<Rightarrow> 's) \<Rightarrow> ('s, unit) io" where
  "modify_io f = (\<lambda>s. ([], f s, Inr ()))"

text \<open>\<^verbatim>\<open>self.attr = Class(args)\<close>: the arguments are read from the attributes, the
  constructor runs, and only when it returned is the attribute assigned.\<close>

definition construct :: "world \<Rightarrow> ('s \<Rightarrow> call) \<Rightarrow> ('s \<Rightarrow> 's) \<Rightarrow> ('s, unit) io" where
  "construct w mk upd = (\<lambda>s. seq_io (await_call w (mk s)) (modify_io upd) s)"

text \<open>\<^verbatim>\<open>if self.attr: stmt\<close>; an object of these classes is true, \<open>None\<close> is false.\<close>

definition when_set :: "('s \<Rightarrow> handle option) \<Rightarrow> ('s, unit) io \<Rightarrow> ('s, unit) io" where
  "when_set attr m = (\<lambda>s. if attr s \<noteq> None then m s else return_io () s)"

fun calls_of :: "event list \<Rightarrow> call list" where
  "calls_of [] = []"
| "calls_of (Call c # es) = c # calls_of es"
| "calls_of (Log lvl msg # es) = calls_of es"

fun logs_of :: "event list \<Rightarrow> (level \<times> string) list" where
  "logs_of [] = []"
| "logs_of (Call c # es) = logs_of es"
| "logs_of (Log lvl msg # es) = (lvl, msg) # logs_of es"

section \<open>The bot: \<^verbatim>\<open>CSGOAssetBot\<close>\<close>

text \<open>\<^verbatim>\<open>__init__\<close> (lines 48-71). The attributes of the fresh object are unset before;
  the model overwrites whatever the record held.\<close>

definition init :: "world \<Rightarrow> (bot, unit) io" where
  "init w = block
     [ construct w (\<lambda>s. Config_new) (\<lambda>s. s\<lparr>config := Some Config_obj\<rparr>),
       await_call w Intents_default,
       await_call w (Config_get ''discord.prefix''),
       await_call w Bot_super_init,
       modify_io (\<lambda>s. s\<lparr>db := None\<rparr>),
       modify_io (\<lambda>s. s\<lparr>cache := None\<rparr>),
       modify_io (\<lambda>s. s\<lparr>steam_client := None\<rparr>),
       modify_io (\<lambda>s. s\<lparr>price_tracker := None\<rparr>),
       construct w (\<lambda>s. ErrorHandler_new) (\<lambda>s. s\<lparr>error_handler := Some ErrorHandler_obj\<rparr>),
       logger INFO ''Bot initialized successfully'' ]"

subsection \<open>\<^verbatim>\<open>load_cogs\<close> (lines 111-130)\<close>

text \<open>\<^verbatim>\<open>str.rfind\<close> for one character, and \<^verbatim>\<open>PurePath.stem\<close>: the name without its last
  suffix, where a leading or a trailing dot starts no suffix.\<close>

fun rfind :: "char \<Rightarrow> string \<Rightarrow> nat option" where
  "rfind c [] = None"
| "rfind c (x # xs) =
     (case rfind c xs of
        Some i \<Rightarrow> Some (Suc i)
      | None \<Rightarrow> if x = c then Some 0 else None)"

definition stem :: "string \<Rightarrow> string" where
  "stem name =
     (case rfind (CHR ''.'') name of
        None \<Rightarrow> name
      | Some i \<Rightarrow> if 0 < i \<and> i < length name - 1 then take i name else name)"

definition startswith :: "string \<Rightarrow> string \<Rightarrow> bool" where
  "startswith name p = (take (length p) name = p)"

definition cog_name :: "string \<Rightarrow> string" where
  "cog_name file = ''bot.cogs.'' @ stem file"

text \<open>The body of the loop, for one file name.\<close>

definition load_cog :: "world \<Rightarrow> string \<Rightarrow> (bot, unit) io" where
  "load_cog w file =
     (if startswith file ''_'' then return_io ()
      else try_io
             (block
                [ await_call w (load_extension (cog_name file)),
                  logger INFO (''Loaded cog: '' @ cog_name file) ])
             (except_Exception (\<lambda>msg.
                logger ERROR (''Failed to load cog '' @ cog_name file @ '': '' @ msg))))"

definition load_cogs :: "world \<Rightarrow> filesystem \<Rightarrow> (bot, unit) io" where
  "load_cogs w fs =
     (if \<not> cogs_dir_exists fs
      then block [ logger WARNING ''Cogs directory not found'' ]
      else for_each (cogs_dir_glob fs) (load_cog w))"

subsection \<open>\<^verbatim>\<open>setup_hook\<close> (lines 73-109)\<close>

definition setup_hook :: "world \<Rightarrow> filesystem \<Rightarrow> (bot, unit) io" where
  "setup_hook w fs = block
     [ logger INFO ''Starting bot setup...'',
       try_io
         (block
            [ construct w (\<lambda>s. DatabaseManager_new (config s))
                (\<lambda>s. s\<lparr>db := Some DatabaseManager_obj\<rparr>),
              await_call w db_connect,
              logger INFO ''Database connected'',
              construct w (\<lambda>s. CacheManager_new (config s))
                (\<lambda>s. s\<lparr>cache := Some CacheManager_obj\<rparr>),
              await_call w cache_connect,
              logger INFO ''Cache connected'',
              await_call w (Config_get ''steam.api_key''),
              construct w (\<lambda>s. SteamAPIClient_new)
                (\<lambda>s. s\<lparr>steam_client := Some SteamAPIClient_obj\<rparr>),
              logger INFO ''Steam API client initialized'',
              construct w (\<lambda>s. PriceTracker_new (db s) (cache s))
                (\<lambda>s. s\<lparr>price_tracker := Some PriceTracker_obj\<rparr>),
              await_call w price_tracker_start,
              logger INFO ''Price tracker started'',
              load_cogs w fs,
              logger INFO ''Bot setup completed successfully'' ])
         (except_Exception (\<lambda>msg. block
            [ logger ERROR (''Error during bot setup: '' @ msg),
              raise_io (Exception msg) ])) ]"

subsection \<open>\<^verbatim>\<open>close\<close> (lines 154-173)\<close>

definition close :: "world \<Rightarrow> (bot, unit) io" where
  "close w = block
     [ logger INFO ''Shutting down bot...'',
       when_set price_tracker (await_call w price_tracker_stop),
       when_set db (await_call w db_close),
       when_set cache (await_call w cache_close),
       await_call w Bot_super_close,
       logger INFO ''Bot shutdown complete'' ]"

section \<open>The entry point\<close>

subsection \<open>\<^verbatim>\<open>check_requirements\<close> (lines 176-191)\<close>

definition required_vars :: "string list" where
  "required_vars = [''DISCORD_TOKEN'', ''STEAM_API_KEY'', ''DATABASE_URL'', ''REDIS_URL'']"

text \<open>\<^verbatim>\<open>os.getenv(var)\<close> is \<open>None\<close> or a string; \<^verbatim>\<open>not\<close> of it is true for \<open>None\<close> and
  for the empty string.\<close>

definition getenv_falsy :: "(string \<rightharpoonup> string) \<Rightarrow> string \<Rightarrow> bool" where
  "getenv_falsy environ var = (case environ var of None \<Rightarrow> True | Some v \<Rightarrow> v = [])"

definition missing_vars :: "(string \<rightharpoonup> string) \<Rightarrow> string list" where
  "missing_vars environ = filter (getenv_falsy environ) required_vars"

fun join :: "string \<Rightarrow> string list \<Rightarrow> string" where
  "join sep [] = []"
| "join sep [x] = x"
| "join sep (x # y # ys) = x @ sep @ join sep (y # ys)"

definition check_requirements :: "(string \<rightharpoonup> string) \<Rightarrow> ('s, unit) io" where
  "check_requirements environ =
     (if missing_vars environ \<noteq> []
      then block
             [ logger ERROR (''Missing required environment variables: ''
                               @ join '', '' (missing_vars environ)),
               raise_io (SystemExit 1) ]
      else return_io ())"

subsection \<open>\<^verbatim>\<open>main\<close> (lines 194-211) and the script body (lines 214-221)\<close>

text \<open>
  \<open>bot_start\<close> is the host framework's \<^verbatim>\<open>async with bot: await bot.start(token)\<close>,
  which is not part of this file and is taken as a parameter.
\<close>

definition main :: "(string \<rightharpoonup> string) \<Rightarrow> world \<Rightarrow> (bot, unit) io \<Rightarrow> (bot, unit) io" where
  "main environ w bot_start = block
     [ check_requirements environ,
       init w,
       try_io bot_start
         (except_KeyboardInterrupt
            (logger INFO ''Received keyboard interrupt, shutting down...'')
            (except_Exception (\<lambda>msg. block
               [ logger ERROR (''Fatal error: '' @ msg),
                 raise_io (Exception msg) ]))) ]"

definition script :: "(string \<rightharpoonup> string) \<Rightarrow> world \<Rightarrow> (bot, unit) io \<Rightarrow> (bot, unit) io" where
  "script environ w bot_start =
     try_io (main environ w bot_start)
       (except_KeyboardInterrupt
          (logger INFO ''Bot stopped by user'')
          (except_Exception (\<lambda>msg. block
             [ logger CRITICAL (''Unhandled exception: '' @ msg),
               raise_io (SystemExit 1) ])))"


section \<open>Vocabulary of the statements\<close>

text \<open>The calls of a list that are attempted when they are made in order and the first
  one that raises ends the run, together with the exception that ended it.\<close>

fun attempt :: "world \<Rightarrow> call list \<Rightarrow> call list \<times> exn option" where
  "attempt w [] = ([], None)"
| "attempt w (c # cs) =
     (case w c of
        Some e \<Rightarrow> ([c], Some e)
      | None \<Rightarrow> (c # fst (attempt w cs), snd (attempt w cs)))"

text \<open>The world in which the instances of \<^verbatim>\<open>Exception\<close> are swallowed, as a handler that
  catches them and goes on makes them.\<close>

fun swallowed :: "exn option \<Rightarrow> exn option" where
  "swallowed None = None"
| "swallowed (Some (Exception msg)) = None"
| "swallowed (Some KeyboardInterrupt) = Some KeyboardInterrupt"
| "swallowed (Some (SystemExit n)) = Some (SystemExit n)"
| "swallowed (Some CancelledError) = Some CancelledError"

definition swallow :: "world \<Rightarrow> world" where
  "swallow w = (\<lambda>c. swallowed (w c))"

text \<open>The calls the \<^verbatim>\<open>try\<close> suite of \<open>setup_hook\<close> makes before it loads the cogs.\<close>

definition setup_steps :: "bot \<Rightarrow> call list" where
  "setup_steps s =
     [ DatabaseManager_new (config s), db_connect,
       CacheManager_new (config s), cache_connect,
       Config_get ''steam.api_key'', SteamAPIClient_new,
       PriceTracker_new (Some DatabaseManager_obj) (Some CacheManager_obj),
       price_tracker_start ]"

text \<open>The statements of that suite up to the start of the price tracker; lemma
  \<open>setup_hook_split\<close> below shows that \<open>setup_hook\<close> runs them and goes on with the cogs.\<close>

definition setup_prelude :: "world \<Rightarrow> (bot, unit) io" where
  "setup_prelude w = block
     [ construct w (\<lambda>s. DatabaseManager_new (config s))
         (\<lambda>s. s\<lparr>db := Some DatabaseManager_obj\<rparr>),
       await_call w db_connect,
       logger INFO ''Database connected'',
       construct w (\<lambda>s. CacheManager_new (config s))
         (\<lambda>s. s\<lparr>cache := Some CacheManager_obj\<rparr>),
       await_call w cache_connect,
       logger INFO ''Cache connected'',
       await_call w (Config_get ''steam.api_key''),
       construct w (\<lambda>s. SteamAPIClient_new)
         (\<lambda>s. s\<lparr>steam_client := Some SteamAPIClient_obj\<rparr>),
       logger INFO ''Steam API client initialized'',
       construct w (\<lambda>s. PriceTracker_new (db s) (cache s))
         (\<lambda>s. s\<lparr>price_tracker := Some PriceTracker_obj\<rparr>),
       await_call w price_tracker_start,
       logger INFO ''Price tracker started'' ]"

text \<open>What the handler of \<open>setup_hook\<close> adds to the trace for the exception it is given:
  a line for an instance of \<^verbatim>\<open>Exception\<close>, nothing for the others, which it does not catch.\<close>

fun setup_error_log :: "exn \<Rightarrow> event list" where
  "setup_error_log (Exception msg) = [Log ERROR (''Error during bot setup: '' @ msg)]"
| "setup_error_log KeyboardInterrupt = []"
| "setup_error_log (SystemExit n) = []"
| "setup_error_log CancelledError = []"

definition init_steps :: "call list" where
  "init_steps =
     [ Config_new, Intents_default, Config_get ''discord.prefix'', Bot_super_init,
       ErrorHandler_new ]"

text \<open>The extension names \<open>load_cogs\<close> considers: none when the directory is missing,
  else the names of the files that do not start with an underscore.\<close>

definition candidates :: "filesystem \<Rightarrow> string list" where
  "candidates fs =
     (if cogs_dir_exists fs
      then map cog_name (filter (\<lambda>file. \<not> startswith file ''_'') (cogs_dir_glob fs))
      else [])"

text \<open>The cleanup calls \<open>close\<close> has to make for the attributes that hold an object,
  in the order of its statements.\<close>

definition due_cleanups :: "bot \<Rightarrow> call list" where
  "due_cleanups s =
     (if price_tracker s \<noteq> None then [price_tracker_stop] else [])
     @ (if db s \<noteq> None then [db_close] else [])
     @ (if cache s \<noteq> None then [cache_close] else [])
     @ [Bot_super_close]"

subsection \<open>The extension loader as the specification words it\<close>

text \<open>
  Section 4.3 of the specification: \<open>loadAll\<close> returns one descriptor for every
  candidate, with the load state \<open>Loaded\<close>, or \<open>Failed\<close> with the reason. These
  definitions follow the specification, not the source, and are compared with
  \<open>load_cogs\<close> below.
\<close>

datatype load_state = Unloaded | Loaded | Failed string





subsection \<open>Concrete inputs\<close>

definition no_failures :: world where
  "no_failures = (\<lambda>c. None)"

definition fresh :: bot where
  "fresh = \<lparr> config = None, db = None, cache = None, steam_client = None,
             price_tracker = None, error_handler = None \<rparr>"

definition all_started :: bot where
  "all_started =
     \<lparr> config = Some Config_obj, db = Some DatabaseManager_obj,
       cache = Some CacheManager_obj, steam_client = Some SteamAPIClient_obj,
       price_tracker = Some PriceTracker_obj, error_handler = Some ErrorHandler_obj \<rparr>"

definition three_cogs :: filesystem where
  "three_cogs =
     \<lparr> cogs_dir_exists = True,
       cogs_dir_glob = [''__init__.py'', ''inventory.py'', ''market.py'', ''admin.py''] \<rparr>"




section \<open>Basic facts about sequencing\<close>

lemma after_pair [simp]: "after ev (ev', x) = (ev @ ev', x)"
  by (simp add: after_def)

lemma after_Nil [simp]: "after [] r = r"
  by (simp add: after_def)

lemmas io_defs = bind_io_def seq_io_def return_io_def raise_io_def logger_def await_call_def
  modify_io_def construct_def when_set_def try_io_def events_of_def state_of_def result_of_def

lemma then_io_alt:
  "then_io r f =
     (case snd (snd r) of
        Inl e \<Rightarrow> (fst r, fst (snd r), Inl e)
      | Inr x \<Rightarrow> after (fst r) (f x (fst (snd r))))"
proof -
  obtain ev s res where r: "r = (ev, s, res)"
    by (rule prod_cases3)
  show ?thesis
    unfolding r by (cases res) simp_all
qed

lemma catch_io_alt:
  "catch_io r h =
     (case snd (snd r) of
        Inr x \<Rightarrow> r
      | Inl e \<Rightarrow> (case h e of None \<Rightarrow> r | Some k \<Rightarrow> after (fst r) (k (fst (snd r)))))"
proof -
  obtain ev s res where r: "r = (ev, s, res)"
    by (rule prod_cases3)
  show ?thesis
    unfolding r by (cases res) (simp_all split: option.splits)
qed

lemma calls_of_append [simp]: "calls_of (xs @ ys) = calls_of xs @ calls_of ys"
  by (induction xs rule: calls_of.induct) simp_all

lemma logs_of_append [simp]: "logs_of (xs @ ys) = logs_of xs @ logs_of ys"
  by (induction xs rule: logs_of.induct) simp_all

subsection \<open>attempt\<close>

lemma attempt_all_ok:
  "\<forall>c\<in>set cs. w c = None \<Longrightarrow> attempt w cs = (cs, None)"
  by (induction cs) simp_all

lemma attempt_first_failure:
  "k < length cs \<Longrightarrow> \<forall>j<k. w (cs ! j) = None \<Longrightarrow> w (cs ! k) = Some e
   \<Longrightarrow> attempt w cs = (take (Suc k) cs, Some e)"
proof (induction cs arbitrary: k)
  case Nil
  then show ?case by simp
next
  case (Cons c cs)
  show ?case
  proof (cases k)
    case 0
    with Cons.prems show ?thesis by simp
  next
    case (Suc k')
    from Cons.prems Suc have c: "w c = None" by auto
    from Cons.prems Suc have "k' < length cs" "\<forall>j<k'. w (cs ! j) = None" "w (cs ! k') = Some e"
      by auto
    then have "attempt w cs = (take (Suc k') cs, Some e)"
      by (rule Cons.IH)
    with c Suc show ?thesis by simp
  qed
qed

lemma attempt_prefix: "\<exists>n. fst (attempt w cs) = take n cs"
proof (induction cs)
  case Nil
  show ?case by simp
next
  case (Cons c cs)
  then obtain n where n: "fst (attempt w cs) = take n cs" ..
  show ?case
  proof (cases "w c")
    case None
    with n have "fst (attempt w (c # cs)) = take (Suc n) (c # cs)" by simp
    then show ?thesis ..
  next
    case (Some e)
    then have "fst (attempt w (c # cs)) = take (Suc 0) (c # cs)" by simp
    then show ?thesis ..
  qed
qed

lemma attempt_no_exception:
  "snd (attempt w cs) = None \<Longrightarrow> fst (attempt w cs) = cs"
  by (induction cs) (simp_all split: option.splits)

subsection \<open>close\<close>

lemma close_calls: "calls_of (events_of (close w s)) = fst (attempt w (due_cleanups s))"
  by (simp add: close_def due_cleanups_def io_defs split: option.splits)

lemma close_result:
  "result_of (close w s) =
     (case snd (attempt w (due_cleanups s)) of None \<Rightarrow> Inr () | Some e \<Rightarrow> Inl e)"
  by (simp add: close_def due_cleanups_def io_defs split: option.splits)

lemma close_state: "state_of (close w s) = s"
  by (simp add: close_def io_defs split: option.splits)

lemma distinct_due_cleanups: "distinct (due_cleanups s)"
  by (simp add: due_cleanups_def)

subsection \<open>load_cogs\<close>

lemma load_cog_alt:
  "load_cog w file s =
     (if startswith file ''_'' then ([], s, Inr ())
      else case w (load_extension (cog_name file)) of
             None \<Rightarrow> ([Call (load_extension (cog_name file)),
                       Log INFO (''Loaded cog: '' @ cog_name file)], s, Inr ())
           | Some (Exception msg) \<Rightarrow>
               ([Call (load_extension (cog_name file)),
                 Log ERROR (''Failed to load cog '' @ cog_name file @ '': '' @ msg)], s, Inr ())
           | Some e \<Rightarrow> ([Call (load_extension (cog_name file))], s, Inl e))"
  by (simp add: load_cog_def io_defs split: option.splits exn.splits)

lemma load_cog_state: "fst (snd (load_cog w file s)) = s"
  by (simp add: load_cog_alt split: option.splits exn.splits)

lemma for_each_load_state: "state_of (for_each files (load_cog w) s) = s"
proof (induction files)
  case Nil
  show ?case by (simp add: io_defs)
next
  case (Cons f files)
  then show ?case
    by (simp add: io_defs then_io_alt load_cog_state after_def split: sum.splits)
qed

lemma load_cogs_state: "state_of (load_cogs w fs s) = s"
  using for_each_load_state [of "cogs_dir_glob fs" w s]
  by (simp add: load_cogs_def io_defs)

lemma for_each_load_calls:
  "calls_of (events_of (for_each files (load_cog w) s)) =
     fst (attempt (swallow w)
            (map load_extension (map cog_name (filter (\<lambda>file. \<not> startswith file ''_'') files))))"
proof (induction files)
  case Nil
  show ?case by (simp add: io_defs)
next
  case (Cons f files)
  have st: "fst (snd (load_cog w f s)) = s"
    by (simp add: load_cog_alt split: option.splits exn.splits)
  show ?case
    using Cons.IH
    by (simp add: io_defs then_io_alt st swallow_def)
      (simp add: load_cog_alt after_def split: option.splits exn.splits)
qed

lemma for_each_load_result:
  "result_of (for_each files (load_cog w) s) =
     (case snd (attempt (swallow w)
            (map load_extension (map cog_name (filter (\<lambda>file. \<not> startswith file ''_'') files))))
      of None \<Rightarrow> Inr () | Some e \<Rightarrow> Inl e)"
proof (induction files)
  case Nil
  show ?case by (simp add: io_defs)
next
  case (Cons f files)
  have st: "fst (snd (load_cog w f s)) = s"
    by (simp add: load_cog_alt split: option.splits exn.splits)
  show ?case
    using Cons.IH
    by (simp add: io_defs then_io_alt st swallow_def)
      (simp add: load_cog_alt after_def split: option.splits exn.splits)
qed

lemma load_cogs_calls:
  "calls_of (events_of (load_cogs w fs s)) =
     fst (attempt (swallow w) (map load_extension (candidates fs)))"
  using for_each_load_calls [of "cogs_dir_glob fs" w s]
  by (simp add: load_cogs_def candidates_def io_defs)

lemma load_cogs_result:
  "result_of (load_cogs w fs s) =
     (case snd (attempt (swallow w) (map load_extension (candidates fs))) of
        None \<Rightarrow> Inr () | Some e \<Rightarrow> Inl e)"
  using for_each_load_result [of "cogs_dir_glob fs" w s]
  by (simp add: load_cogs_def candidates_def io_defs)

lemma await_call_alt:
  "await_call w c s = (case w c of None \<Rightarrow> ([Call c], s, Inr ()) | Some e \<Rightarrow> ([Call c], s, Inl e))"
  by (simp add: await_call_def split: option.splits)

lemmas run_defs = bind_io_def seq_io_def return_io_def raise_io_def logger_def await_call_alt
  modify_io_def construct_def when_set_def try_io_def

lemma seq_io_assoc: "seq_io (seq_io a b) c = seq_io a (seq_io b c)"
proof
  fix s
  obtain ev s' r where a: "a s = (ev, s', r)" by (rule prod_cases3)
  show "seq_io (seq_io a b) c s = seq_io a (seq_io b c) s"
  proof (cases r)
    case (Inl e)
    with a show ?thesis by (simp add: seq_io_def bind_io_def)
  next
    case (Inr x)
    obtain ev2 s2 r2 where b: "b s' = (ev2, s2, r2)" by (rule prod_cases3)
    obtain ev3 s3 r3 where c: "c s2 = (ev3, s3, r3)" by (rule prod_cases3)
    from a Inr b c show ?thesis
      by (cases r2) (simp_all add: seq_io_def bind_io_def)
  qed
qed

lemma return_seq_io: "seq_io (return_io x) m = m"
  by (rule ext) (simp add: seq_io_def bind_io_def return_io_def)

lemma block_append: "block (xs @ ys) = seq_io (block xs) (block ys)"
  by (induction xs) (simp_all add: return_seq_io seq_io_assoc)

lemma seq_io_return: "seq_io m (return_io ()) = m"
proof
  fix s
  obtain ev s' r where m: "m s = (ev, s', r)" by (rule prod_cases3)
  show "seq_io m (return_io ()) s = m s"
    unfolding m seq_io_def bind_io_def by (cases r) (simp_all add: return_io_def m)
qed

lemma block_two: "block [m, n] = seq_io m n"
  by (simp add: seq_io_return)

lemma setup_hook_split:
  "setup_hook w fs =
     seq_io (logger INFO ''Starting bot setup...'')
       (try_io
          (seq_io (setup_prelude w)
             (seq_io (load_cogs w fs) (logger INFO ''Bot setup completed successfully'')))
          (except_Exception (\<lambda>msg.
             seq_io (logger ERROR (''Error during bot setup: '' @ msg)) (raise_io (Exception msg)))))"
proof -
  have 4: "[a1, a2, a3, a4, a5, a6, a7, a8, a9, a10, a11, a12, a13, a14] =
      [a1, a2, a3, a4, a5, a6, a7, a8, a9, a10, a11, a12] @ [a13, a14]"
    for a1 a2 a3 a4 a5 a6 a7 a8 a9 a10 a11 a12 a13 a14 :: "(bot, unit) io"
    by simp
  show ?thesis
    unfolding setup_hook_def setup_prelude_def
    by (subst 4, subst block_append) (simp only: block_two)
qed

lemma prelude_calls:
  "calls_of (fst (setup_prelude w s)) = fst (attempt w (setup_steps s))"
  by (simp add: setup_prelude_def run_defs setup_steps_def split: option.split)

lemma prelude_result:
  "snd (snd (setup_prelude w s)) =
     (case snd (attempt w (setup_steps s)) of None \<Rightarrow> Inr () | Some e \<Rightarrow> Inl e)"
  by (simp add: setup_prelude_def run_defs setup_steps_def split: option.split)

lemma prelude_state:
  "snd (attempt w (setup_steps s)) = None \<Longrightarrow>
   fst (snd (setup_prelude w s)) =
     s\<lparr>db := Some DatabaseManager_obj, cache := Some CacheManager_obj,
       steam_client := Some SteamAPIClient_obj, price_tracker := Some PriceTracker_obj\<rparr>"
  by (simp add: setup_prelude_def run_defs setup_steps_def split: option.split option.split_asm)

lemma prelude_logs:
  "snd (attempt w (setup_steps s)) = None \<Longrightarrow>
   fst (setup_prelude w s) =
     [ Call (DatabaseManager_new (config s)), Call db_connect, Log INFO ''Database connected'',
       Call (CacheManager_new (config s)), Call cache_connect, Log INFO ''Cache connected'',
       Call (Config_get ''steam.api_key''), Call SteamAPIClient_new,
       Log INFO ''Steam API client initialized'',
       Call (PriceTracker_new (Some DatabaseManager_obj) (Some CacheManager_obj)),
       Call price_tracker_start, Log INFO ''Price tracker started'' ]"
  by (simp add: setup_prelude_def run_defs setup_steps_def split: option.split option.split_asm)

section \<open>What \<open>setup_hook\<close> and \<open>init\<close> do\<close>

lemma setup_hook_prelude_fails:
  assumes "snd (attempt w (setup_steps s)) = Some e"
  shows "setup_hook w fs s =
     (Log INFO ''Starting bot setup...'' # fst (setup_prelude w s) @ setup_error_log e,
      fst (snd (setup_prelude w s)), Inl e)"
proof -
  obtain evP sP rP where P: "setup_prelude w s = (evP, sP, rP)" by (rule prod_cases3)
  from assms prelude_result [of w s] P have r: "rP = Inl e" by simp
  show ?thesis
    unfolding setup_hook_split
    by (cases e) (simp_all add: seq_io_def bind_io_def try_io_def logger_def raise_io_def P r)
qed

lemma setup_hook_prelude_ok:
  assumes "snd (attempt w (setup_steps s)) = None"
  shows "setup_hook w fs s =
     (let s' = s\<lparr>db := Some DatabaseManager_obj, cache := Some CacheManager_obj,
                  steam_client := Some SteamAPIClient_obj, price_tracker := Some PriceTracker_obj\<rparr>
      in (Log INFO ''Starting bot setup...'' # fst (setup_prelude w s) @ events_of (load_cogs w fs s')
            @ (case result_of (load_cogs w fs s') of
                 Inr u \<Rightarrow> [Log INFO ''Bot setup completed successfully'']
               | Inl e \<Rightarrow> setup_error_log e),
          s', result_of (load_cogs w fs s')))"
proof -
  define s' where "s' = s\<lparr>db := Some DatabaseManager_obj, cache := Some CacheManager_obj,
      steam_client := Some SteamAPIClient_obj, price_tracker := Some PriceTracker_obj\<rparr>"
  obtain evP sP rP where P: "setup_prelude w s = (evP, sP, rP)" by (rule prod_cases3)
  from assms prelude_result [of w s] P have r: "rP = Inr ()" by simp
  from assms prelude_state [of w s] P have sP: "sP = s'" by (simp add: s'_def)
  obtain evL sL rL where L: "load_cogs w fs s' = (evL, sL, rL)" by (rule prod_cases3)
  from load_cogs_state [of w fs s'] L have sL: "sL = s'" by (simp add: state_of_def)
  have "setup_hook w fs s =
      (Log INFO ''Starting bot setup...'' # evP @ evL
            @ (case rL of Inr u \<Rightarrow> [Log INFO ''Bot setup completed successfully'']
               | Inl e \<Rightarrow> setup_error_log e), s', rL)"
  proof (cases rL)
    case (Inr u)
    then show ?thesis
      unfolding setup_hook_split
      by (simp add: seq_io_def bind_io_def try_io_def logger_def raise_io_def P r sP L sL)
  next
    case (Inl e)
    then show ?thesis
      unfolding setup_hook_split
      by (cases e) (simp_all add: seq_io_def bind_io_def try_io_def logger_def raise_io_def P r sP L sL)
  qed
  then show ?thesis
    by (simp add: Let_def s'_def [symmetric] P L events_of_def result_of_def)
qed

lemma calls_of_setup_error_log [simp]: "calls_of (setup_error_log e) = []"
  by (cases e) simp_all

lemma setup_hook_calls:
  "calls_of (events_of (setup_hook w fs s)) =
     (case snd (attempt w (setup_steps s)) of
        Some e \<Rightarrow> fst (attempt w (setup_steps s))
      | None \<Rightarrow> setup_steps s @ fst (attempt (swallow w) (map load_extension (candidates fs))))"
proof (cases "snd (attempt w (setup_steps s))")
  case None
  then have "fst (attempt w (setup_steps s)) = setup_steps s" by (rule attempt_no_exception)
  with None show ?thesis
    by (simp add: setup_hook_prelude_ok Let_def events_of_def prelude_calls
        load_cogs_calls [unfolded events_of_def] split: sum.splits)
next
  case (Some e)
  then show ?thesis
    by (simp add: setup_hook_prelude_fails events_of_def prelude_calls)
qed

lemma setup_hook_result:
  "result_of (setup_hook w fs s) =
     (case snd (attempt w (setup_steps s)) of
        Some e \<Rightarrow> Inl e
      | None \<Rightarrow> (case snd (attempt (swallow w) (map load_extension (candidates fs))) of
                  None \<Rightarrow> Inr () | Some e \<Rightarrow> Inl e))"
proof (cases "snd (attempt w (setup_steps s))")
  case None
  then show ?thesis
    by (simp add: setup_hook_prelude_ok Let_def load_cogs_result [unfolded result_of_def]
        result_of_def)
next
  case (Some e)
  then show ?thesis
    by (simp add: setup_hook_prelude_fails result_of_def)
qed

lemma setup_hook_started:
  assumes "result_of (setup_hook w fs s) = Inr ()"
  shows "state_of (setup_hook w fs s) =
     s\<lparr>db := Some DatabaseManager_obj, cache := Some CacheManager_obj,
       steam_client := Some SteamAPIClient_obj, price_tracker := Some PriceTracker_obj\<rparr>"
proof (cases "snd (attempt w (setup_steps s))")
  case None
  then show ?thesis
    by (simp add: setup_hook_prelude_ok Let_def state_of_def)
next
  case (Some e)
  with assms show ?thesis
    by (simp add: setup_hook_prelude_fails result_of_def)
qed



lemma init_calls_ok:
  "result_of (init w s) = Inr () \<Longrightarrow> calls_of (events_of (init w s)) = init_steps"
  by (simp add: init_def init_steps_def run_defs events_of_def result_of_def
      split: option.split option.split_asm)

lemma init_state_ok:
  "result_of (init w s) = Inr () \<Longrightarrow>
   state_of (init w s) =
     s\<lparr>config := Some Config_obj, db := None, cache := None, steam_client := None,
       price_tracker := None, error_handler := Some ErrorHandler_obj\<rparr>"
  by (simp add: init_def init_steps_def run_defs state_of_def result_of_def
      split: option.split option.split_asm)

section \<open>The entry point and the extension loader\<close>


lemma init_events_ok:
  "result_of (init w s) = Inr () \<Longrightarrow>
   events_of (init w s) =
     [ Call Config_new, Call Intents_default, Call (Config_get ''discord.prefix''),
       Call Bot_super_init, Call ErrorHandler_new, Log INFO ''Bot initialized successfully'' ]"
  by (simp add: init_def run_defs events_of_def result_of_def
      split: option.split option.split_asm)

lemma init_config_fails:
  "w Config_new = Some e \<Longrightarrow> init w s = ([Call Config_new], s, Inl e)"
  by (simp add: init_def run_defs)

lemma check_requirements_ok:
  "missing_vars environ = [] \<Longrightarrow> check_requirements environ s = ([], s, Inr ())"
  by (simp add: check_requirements_def return_io_def)




lemma script_config_fails:
  "missing_vars environ = [] \<Longrightarrow> w Config_new = Some (Exception msg) \<Longrightarrow>
   script environ w bot_start s =
     ([Call Config_new, Log CRITICAL (''Unhandled exception: '' @ msg)], s, Inl (SystemExit 1))"
  by (simp add: script_def main_def try_io_def seq_io_def bind_io_def check_requirements_ok
      init_config_fails logger_def raise_io_def)





section \<open>Facts about the concrete inputs\<close>

lemma attempt_no_failures [simp]: "attempt no_failures cs = (cs, None)"
  by (rule attempt_all_ok) (simp add: no_failures_def)

lemma swallow_no_failures [simp]: "swallow no_failures = no_failures"
  by (rule ext) (simp add: swallow_def no_failures_def)

lemma due_cleanups_all_started [simp]:
  "due_cleanups all_started = [price_tracker_stop, db_close, cache_close, Bot_super_close]"
  by (simp add: due_cleanups_def all_started_def)

lemma block_two_run:
  "block [m, n] s =
     (case result_of (m s) of
        Inl e \<Rightarrow> m s
      | Inr u \<Rightarrow> after (events_of (m s)) (n (state_of (m s))))"
proof -
  obtain ev s' r where m: "m s = (ev, s', r)" by (rule prod_cases3)
  show ?thesis
    unfolding block_two
    by (cases r) (simp_all add: seq_io_def bind_io_def m result_of_def events_of_def state_of_def)
qed

lemma prelude_db_connect_fails:
  "w (DatabaseManager_new (config s)) = None \<Longrightarrow> w db_connect = Some e \<Longrightarrow>
   setup_prelude w s =
     ([Call (DatabaseManager_new (config s)), Call db_connect],
      s\<lparr>db := Some DatabaseManager_obj\<rparr>, Inl e)"
  by (simp add: setup_prelude_def run_defs)

section \<open>Shutdown\<close>




text \<open>
  Claim C2, as stated: every cleanup is attempted whether or not an earlier one raised,
  and shutdown always completes. In the source no cleanup is guarded: when
  \<^verbatim>\<open>price_tracker.stop\<close> raises, neither the storage nor the cache is closed and the
  exception leaves \<open>close\<close>.
\<close>

theorem close_best_effort_counterexample:
  "db all_started \<noteq> None \<and> cache all_started \<noteq> None
   \<and> calls_of (events_of (close (no_failures(price_tracker_stop := Some (Exception ''timeout'')))
        all_started)) = [price_tracker_stop]
   \<and> result_of (close (no_failures(price_tracker_stop := Some (Exception ''timeout'')))
        all_started) = Inl (Exception ''timeout'')"
  by (simp add: close_calls close_result no_failures_def all_started_def due_cleanups_def)

text \<open>
  Claim C2, amended: shutdown attempts the cleanups that are due (one for each service
  attribute that holds an object, then the host's) in order, each at most once. The first
  one that raises ends the run: the later ones are not attempted and its exception goes to
  the caller. When none raises, each is attempted exactly once and shutdown completes.
\<close>

theorem close_stops_at_first_failure:
  "(\<forall>k e. k < length (due_cleanups s) \<and> (\<forall>j<k. w (due_cleanups s ! j) = None)
           \<and> w (due_cleanups s ! k) = Some e
      \<longrightarrow> calls_of (events_of (close w s)) = take (Suc k) (due_cleanups s)
          \<and> result_of (close w s) = Inl e)
   \<and> ((\<forall>c\<in>set (due_cleanups s). w c = None)
      \<longrightarrow> calls_of (events_of (close w s)) = due_cleanups s \<and> result_of (close w s) = Inr ())
   \<and> distinct (calls_of (events_of (close w s)))"
proof -
  have "distinct (calls_of (events_of (close w s)))"
  proof -
    obtain n where "fst (attempt w (due_cleanups s)) = take n (due_cleanups s)"
      using attempt_prefix by blast
    then show ?thesis
      by (simp add: close_calls distinct_due_cleanups)
  qed
  then show ?thesis
    by (auto simp: close_calls close_result attempt_first_failure attempt_all_ok)
qed

theorem close_stops_at_first_failure_witness:
  "due_cleanups all_started = [price_tracker_stop, db_close, cache_close, Bot_super_close]
   \<and> calls_of (events_of (close (no_failures(db_close := Some (Exception ''connection lost'')))
        all_started)) = [price_tracker_stop, db_close]
   \<and> result_of (close (no_failures(db_close := Some (Exception ''connection lost'')))
        all_started) = Inl (Exception ''connection lost'')
   \<and> calls_of (events_of (close no_failures all_started)) =
        [price_tracker_stop, db_close, cache_close, Bot_super_close]
   \<and> result_of (close no_failures all_started) = Inr ()"
proof -
  let ?w = "no_failures(db_close := Some (Exception ''connection lost''))"
  have 1: "1 < length (due_cleanups all_started) \<and> (\<forall>j<1. ?w (due_cleanups all_started ! j) = None)
      \<and> ?w (due_cleanups all_started ! 1) = Some (Exception ''connection lost'')"
    by (simp add: no_failures_def)
  have 2: "\<forall>c\<in>set (due_cleanups all_started). no_failures c = None"
    by (simp add: no_failures_def)
  from close_stops_at_first_failure [of all_started ?w] 1
  have "calls_of (events_of (close ?w all_started)) = take (Suc 1) (due_cleanups all_started)
      \<and> result_of (close ?w all_started) = Inl (Exception ''connection lost'')"
    by blast
  moreover from close_stops_at_first_failure [of all_started no_failures] 2
  have "calls_of (events_of (close no_failures all_started)) = due_cleanups all_started
      \<and> result_of (close no_failures all_started) = Inr ()"
    by blast
  ultimately show ?thesis by simp
qed

text \<open>
  Claim C3, as stated: two calls of shutdown in a row invoke no cleanup more than once.
  \<open>close\<close> neither clears the attributes nor records that it ran: the second call stops
  the price tracker and closes the storage and the cache again.
\<close>

theorem close_twice_counterexample:
  "calls_of (events_of (block [close no_failures, close no_failures] all_started)) =
     [price_tracker_stop, db_close, cache_close, Bot_super_close,
      price_tracker_stop, db_close, cache_close, Bot_super_close]
   \<and> result_of (block [close no_failures, close no_failures] all_started) = Inr ()
   \<and> count_list (calls_of (events_of (block [close no_failures, close no_failures] all_started)))
       price_tracker_stop = 2"
proof -
  have r: "result_of (close no_failures all_started) = Inr ()"
    by (simp add: close_result no_failures_def)
  have s: "fst (snd (close no_failures all_started)) = all_started"
    using close_state [of no_failures all_started] by (simp add: state_of_def)
  have c: "calls_of (fst (close no_failures all_started)) =
      [price_tracker_stop, db_close, cache_close, Bot_super_close]"
    using close_calls [of no_failures all_started] by (simp add: events_of_def no_failures_def)
  have r': "snd (snd (close no_failures all_started)) = Inr ()"
    using r by (simp add: result_of_def)
  show ?thesis
    by (simp del: block.simps add: block_two_run r)
      (simp add: events_of_def state_of_def result_of_def after_def s c r')
qed

text \<open>
  Claim C3, amended: when no service attribute holds an object, as after \<^verbatim>\<open>__init__\<close>
  alone, shutdown calls no service cleanup, only the host's \<^verbatim>\<open>close\<close>, and returns
  normally when that does. Shutdown leaves the attributes as they were, so a second call
  after a first that returned makes the calls of a full pass again.
\<close>

theorem close_without_startup:
  "(price_tracker s = None \<and> db s = None \<and> cache s = None \<longrightarrow>
      calls_of (events_of (close w s)) = [Bot_super_close]
      \<and> (w Bot_super_close = None \<longrightarrow> result_of (close w s) = Inr ()))
   \<and> (result_of (init w0 s0) = Inr () \<longrightarrow>
        calls_of (events_of (close w (state_of (init w0 s0)))) = [Bot_super_close])
   \<and> state_of (close w s) = s
   \<and> (result_of (close w s) = Inr () \<longrightarrow>
        calls_of (events_of (block [close w, close w'] s)) =
          calls_of (events_of (close w s)) @ calls_of (events_of (close w' s)))"
proof -
  have a: "calls_of (events_of (close w s)) = [Bot_super_close]
      \<and> (w Bot_super_close = None \<longrightarrow> result_of (close w s) = Inr ())"
    if "price_tracker s = None \<and> db s = None \<and> cache s = None" for s
    using that by (simp add: close_calls close_result due_cleanups_def split: option.splits)
  have b: "calls_of (events_of (close w (state_of (init w0 s0)))) = [Bot_super_close]"
    if "result_of (init w0 s0) = Inr ()"
    using a [of "state_of (init w0 s0)"] by (simp add: init_state_ok [OF that])
  have c: "calls_of (events_of (block [close w, close w'] s)) =
          calls_of (events_of (close w s)) @ calls_of (events_of (close w' s))"
    if "result_of (close w s) = Inr ()"
    using that close_state [of w s]
    by (simp del: block.simps add: block_two_run)
      (simp add: after_def events_of_def state_of_def)
  from a [of s] b c close_state [of w s] show ?thesis by blast
qed

theorem close_without_startup_witness:
  "result_of (init no_failures fresh) = Inr ()
   \<and> calls_of (events_of (close no_failures (state_of (init no_failures fresh)))) = [Bot_super_close]
   \<and> result_of (close no_failures fresh) = Inr ()
   \<and> calls_of (events_of (close no_failures fresh)) = [Bot_super_close]
   \<and> state_of (close no_failures all_started) = all_started
   \<and> calls_of (events_of (block [close no_failures, close no_failures] all_started)) =
       calls_of (events_of (close no_failures all_started))
       @ calls_of (events_of (close no_failures all_started))"
proof -
  have i: "result_of (init no_failures fresh) = Inr ()"
    by (simp add: init_def run_defs result_of_def no_failures_def)
  have f: "price_tracker fresh = None \<and> db fresh = None \<and> cache fresh = None"
    by (simp add: fresh_def)
  have n: "no_failures Bot_super_close = None"
    by (simp add: no_failures_def)
  have r: "result_of (close no_failures all_started) = Inr ()"
    by (simp add: close_result no_failures_def)
  from close_without_startup [of fresh no_failures no_failures fresh no_failures] i f n
  have "calls_of (events_of (close no_failures (state_of (init no_failures fresh)))) = [Bot_super_close]
    \<and> result_of (close no_failures fresh) = Inr ()
    \<and> calls_of (events_of (close no_failures fresh)) = [Bot_super_close]"
    by blast
  moreover from close_without_startup [of all_started no_failures no_failures fresh no_failures] r
  have "state_of (close no_failures all_started) = all_started
   \<and> calls_of (events_of (block [close no_failures, close no_failures] all_started)) =
       calls_of (events_of (close no_failures all_started))
       @ calls_of (events_of (close no_failures all_started))"
    by blast
  ultimately show ?thesis using i by blast
qed

text \<open>
  Claim C9, as stated: in every run of shutdown a cleanup is attempted if and only if its
  attribute holds an object, and the host's \<^verbatim>\<open>close\<close> is called in every run. When
  \<^verbatim>\<open>db.close\<close> raises, the cache, although constructed, is not closed, and the host's
  \<^verbatim>\<open>close\<close> is not called.
\<close>

theorem cleanup_iff_constructed_counterexample:
  "cache all_started \<noteq> None
   \<and> cache_close \<notin> set (calls_of (events_of
        (close (no_failures(db_close := Some (Exception ''connection lost''))) all_started)))
   \<and> Bot_super_close \<notin> set (calls_of (events_of
        (close (no_failures(db_close := Some (Exception ''connection lost''))) all_started)))"
  by (simp add: close_calls no_failures_def all_started_def due_cleanups_def)

text \<open>
  Claim C9, amended: a cleanup is attempted if and only if its attribute holds an object
  and no cleanup attempted before it raised; the host's \<^verbatim>\<open>close\<close> is called if and only
  if no service cleanup raised. Whether the connect or start step succeeded plays no part:
  when \<^verbatim>\<open>db.connect\<close> raises in \<open>setup_hook\<close>, the attribute is already assigned and a
  later shutdown calls \<^verbatim>\<open>db.close\<close>.
\<close>

theorem cleanup_iff_constructed:
  "(price_tracker_stop \<in> set (calls_of (events_of (close w s))) \<longleftrightarrow> price_tracker s \<noteq> None)
   \<and> (db_close \<in> set (calls_of (events_of (close w s))) \<longleftrightarrow>
        db s \<noteq> None \<and> \<not> (price_tracker s \<noteq> None \<and> w price_tracker_stop \<noteq> None))
   \<and> (cache_close \<in> set (calls_of (events_of (close w s))) \<longleftrightarrow>
        cache s \<noteq> None \<and> \<not> (price_tracker s \<noteq> None \<and> w price_tracker_stop \<noteq> None)
        \<and> \<not> (db s \<noteq> None \<and> w db_close \<noteq> None))
   \<and> (Bot_super_close \<in> set (calls_of (events_of (close w s))) \<longleftrightarrow>
        \<not> (price_tracker s \<noteq> None \<and> w price_tracker_stop \<noteq> None)
        \<and> \<not> (db s \<noteq> None \<and> w db_close \<noteq> None)
        \<and> \<not> (cache s \<noteq> None \<and> w cache_close \<noteq> None))
   \<and> (price_tracker s0 = None \<and> w0 (DatabaseManager_new (config s0)) = None
        \<and> w0 db_connect = Some e \<longrightarrow>
        result_of (setup_hook w0 fs s0) = Inl e
        \<and> db (state_of (setup_hook w0 fs s0)) = Some DatabaseManager_obj
        \<and> db_close \<in> set (calls_of (events_of (close w (state_of (setup_hook w0 fs s0))))))"
proof -
  have iff: "(price_tracker_stop \<in> set (calls_of (events_of (close w s))) \<longleftrightarrow> price_tracker s \<noteq> None)
   \<and> (db_close \<in> set (calls_of (events_of (close w s))) \<longleftrightarrow>
        db s \<noteq> None \<and> \<not> (price_tracker s \<noteq> None \<and> w price_tracker_stop \<noteq> None))
   \<and> (cache_close \<in> set (calls_of (events_of (close w s))) \<longleftrightarrow>
        cache s \<noteq> None \<and> \<not> (price_tracker s \<noteq> None \<and> w price_tracker_stop \<noteq> None)
        \<and> \<not> (db s \<noteq> None \<and> w db_close \<noteq> None))
   \<and> (Bot_super_close \<in> set (calls_of (events_of (close w s))) \<longleftrightarrow>
        \<not> (price_tracker s \<noteq> None \<and> w price_tracker_stop \<noteq> None)
        \<and> \<not> (db s \<noteq> None \<and> w db_close \<noteq> None)
        \<and> \<not> (cache s \<noteq> None \<and> w cache_close \<noteq> None))" for s
    by (auto simp: close_calls due_cleanups_def split: option.splits)
  have fail: "result_of (setup_hook w0 fs s0) = Inl e
        \<and> db (state_of (setup_hook w0 fs s0)) = Some DatabaseManager_obj
        \<and> db_close \<in> set (calls_of (events_of (close w (state_of (setup_hook w0 fs s0)))))"
    if h: "price_tracker s0 = None \<and> w0 (DatabaseManager_new (config s0)) = None
        \<and> w0 db_connect = Some e"
  proof -
    from h have a: "snd (attempt w0 (setup_steps s0)) = Some e"
      by (simp add: setup_steps_def)
    from h have p: "setup_prelude w0 s0 =
       ([Call (DatabaseManager_new (config s0)), Call db_connect],
        s0\<lparr>db := Some DatabaseManager_obj\<rparr>, Inl e)"
      by (simp add: prelude_db_connect_fails)
    have st: "state_of (setup_hook w0 fs s0) = s0\<lparr>db := Some DatabaseManager_obj\<rparr>"
      by (simp add: setup_hook_prelude_fails [OF a] p state_of_def)
    have "result_of (setup_hook w0 fs s0) = Inl e"
      by (simp add: setup_hook_prelude_fails [OF a] result_of_def)
    moreover have "db_close \<in> set (calls_of (events_of (close w (s0\<lparr>db := Some DatabaseManager_obj\<rparr>))))"
      using h iff [of "s0\<lparr>db := Some DatabaseManager_obj\<rparr>"] by simp
    ultimately show ?thesis by (simp add: st)
  qed
  from iff [of s] fail show ?thesis by blast
qed

theorem cleanup_iff_constructed_witness:
  "result_of (setup_hook (no_failures(db_connect := Some (Exception ''refused''))) three_cogs fresh)
     = Inl (Exception ''refused'')
   \<and> db (state_of (setup_hook (no_failures(db_connect := Some (Exception ''refused''))) three_cogs fresh))
     = Some DatabaseManager_obj
   \<and> db_close \<in> set (calls_of (events_of (close no_failures
        (state_of (setup_hook (no_failures(db_connect := Some (Exception ''refused''))) three_cogs fresh)))))
   \<and> price_tracker_stop \<notin> set (calls_of (events_of (close no_failures fresh)))
   \<and> Bot_super_close \<in> set (calls_of (events_of (close no_failures fresh)))"
proof -
  let ?w0 = "no_failures(db_connect := Some (Exception ''refused''))"
  have h: "price_tracker fresh = None \<and> ?w0 (DatabaseManager_new (config fresh)) = None
        \<and> ?w0 db_connect = Some (Exception ''refused'')"
    by (simp add: fresh_def no_failures_def)
  have f: "price_tracker fresh = None \<and> db fresh = None \<and> cache fresh = None"
    by (simp add: fresh_def)
  have n: "no_failures price_tracker_stop = None \<and> no_failures db_close = None
      \<and> no_failures cache_close = None"
    by (simp add: no_failures_def)
  from cleanup_iff_constructed [of no_failures fresh fresh ?w0 "Exception ''refused''" three_cogs] h f n
  show ?thesis by simp
qed

section \<open>Startup\<close>



text \<open>
  Claim C5: when \<^verbatim>\<open>__init__\<close> followed by \<open>setup_hook\<close> returns normally, the calls are,
  in this order: the configuration is loaded (and the host object initialised), the
  storage is constructed and connected, the cache is constructed and connected, the API
  client is constructed, the price tracker is constructed with the storage and cache
  objects and started, and the extensions are loaded. The trace shows each step's log line
  after its call and before the next step's call.
\<close>

theorem startup_order:
  assumes "result_of (block [init w, setup_hook w fs] s) = Inr ()"
  shows "calls_of (events_of (block [init w, setup_hook w fs] s)) =
     [ Config_new, Intents_default, Config_get ''discord.prefix'', Bot_super_init,
       ErrorHandler_new,
       DatabaseManager_new (Some Config_obj), db_connect,
       CacheManager_new (Some Config_obj), cache_connect,
       Config_get ''steam.api_key'', SteamAPIClient_new,
       PriceTracker_new (Some DatabaseManager_obj) (Some CacheManager_obj),
       price_tracker_start ]
     @ map load_extension (candidates fs)
   \<and> events_of (block [init w, setup_hook w fs] s) =
     [ Call Config_new, Call Intents_default, Call (Config_get ''discord.prefix''),
       Call Bot_super_init, Call ErrorHandler_new, Log INFO ''Bot initialized successfully'',
       Log INFO ''Starting bot setup...'',
       Call (DatabaseManager_new (Some Config_obj)), Call db_connect,
       Log INFO ''Database connected'',
       Call (CacheManager_new (Some Config_obj)), Call cache_connect,
       Log INFO ''Cache connected'',
       Call (Config_get ''steam.api_key''), Call SteamAPIClient_new,
       Log INFO ''Steam API client initialized'',
       Call (PriceTracker_new (Some DatabaseManager_obj) (Some CacheManager_obj)),
       Call price_tracker_start, Log INFO ''Price tracker started'' ]
     @ events_of (load_cogs w fs (state_of (block [init w, setup_hook w fs] s)))
     @ [ Log INFO ''Bot setup completed successfully'' ]"
proof -
  let ?s1 = "state_of (init w s)"
  have i: "result_of (init w s) = Inr ()"
    using assms by (simp del: block.simps add: block_two_run split: sum.splits)
  then have run: "block [init w, setup_hook w fs] s =
      after (events_of (init w s)) (setup_hook w fs ?s1)"
    by (simp del: block.simps add: block_two_run)
  with assms have r: "result_of (setup_hook w fs ?s1) = Inr ()"
    by (simp del: block.simps add: result_of_def after_def)
  have c1: "config ?s1 = Some Config_obj"
    by (simp add: init_state_ok [OF i])
  from r have p: "snd (attempt w (setup_steps ?s1)) = None"
    by (simp add: setup_hook_result split: option.splits)
  from r p have l: "snd (attempt (swallow w) (map load_extension (candidates fs))) = None"
    by (simp add: setup_hook_result split: option.splits)
  have calls: "calls_of (events_of (setup_hook w fs ?s1)) =
      setup_steps ?s1 @ map load_extension (candidates fs)"
    using p attempt_no_exception [OF l] by (simp add: setup_hook_calls)
  let ?s2 = "?s1\<lparr>db := Some DatabaseManager_obj, cache := Some CacheManager_obj,
      steam_client := Some SteamAPIClient_obj, price_tracker := Some PriceTracker_obj\<rparr>"
  have st: "state_of (block [init w, setup_hook w fs] s) = ?s2"
    using setup_hook_started [OF r] by (simp del: block.simps add: run state_of_def after_def)
  have rl: "result_of (load_cogs w fs ?s2) = Inr ()"
    using l by (simp add: load_cogs_result)
  have ev: "events_of (setup_hook w fs ?s1) =
      Log INFO ''Starting bot setup...'' # fst (setup_prelude w ?s1)
        @ events_of (load_cogs w fs ?s2) @ [Log INFO ''Bot setup completed successfully'']"
    by (simp add: setup_hook_prelude_ok [OF p] Let_def rl events_of_def)
  have "calls_of (events_of (block [init w, setup_hook w fs] s)) =
      init_steps @ setup_steps ?s1 @ map load_extension (candidates fs)"
    using calls init_calls_ok [OF i] by (simp del: block.simps add: run events_of_def after_def)
  moreover have "events_of (block [init w, setup_hook w fs] s) =
      events_of (init w s) @ Log INFO ''Starting bot setup...'' # fst (setup_prelude w ?s1)
        @ events_of (load_cogs w fs ?s2) @ [Log INFO ''Bot setup completed successfully'']"
    using ev by (simp del: block.simps add: run events_of_def after_def)
  ultimately show ?thesis
    by (simp del: block.simps
        add: st init_events_ok [OF i] prelude_logs [OF p] c1 init_steps_def setup_steps_def)
qed

theorem startup_order_witness:
  "result_of (block [init no_failures, setup_hook no_failures three_cogs] fresh) = Inr ()
   \<and> calls_of (events_of (block [init no_failures, setup_hook no_failures three_cogs] fresh)) =
     [ Config_new, Intents_default, Config_get ''discord.prefix'', Bot_super_init,
       ErrorHandler_new,
       DatabaseManager_new (Some Config_obj), db_connect,
       CacheManager_new (Some Config_obj), cache_connect,
       Config_get ''steam.api_key'', SteamAPIClient_new,
       PriceTracker_new (Some DatabaseManager_obj) (Some CacheManager_obj),
       price_tracker_start,
       load_extension ''bot.cogs.inventory'', load_extension ''bot.cogs.market'',
       load_extension ''bot.cogs.admin'' ]"
proof -
  have i: "result_of (init no_failures fresh) = Inr ()"
    by (simp add: init_def run_defs result_of_def no_failures_def)
  have r: "result_of (setup_hook no_failures three_cogs s) = Inr ()" for s
    by (simp add: setup_hook_result)
  have h: "result_of (block [init no_failures, setup_hook no_failures three_cogs] fresh) = Inr ()"
    using i r by (simp del: block.simps add: block_two_run) (simp add: result_of_def after_def)
  have c: "candidates three_cogs = [''bot.cogs.inventory'', ''bot.cogs.market'', ''bot.cogs.admin'']"
    by (simp add: candidates_def three_cogs_def startswith_def cog_name_def stem_def)
  from startup_order [OF h]
  have "calls_of (events_of (block [init no_failures, setup_hook no_failures three_cogs] fresh)) =
     [ Config_new, Intents_default, Config_get ''discord.prefix'', Bot_super_init,
       ErrorHandler_new,
       DatabaseManager_new (Some Config_obj), db_connect,
       CacheManager_new (Some Config_obj), cache_connect,
       Config_get ''steam.api_key'', SteamAPIClient_new,
       PriceTracker_new (Some DatabaseManager_obj) (Some CacheManager_obj),
       price_tracker_start ]
     @ map load_extension (candidates three_cogs)"
    by (rule conjunct1)
  with h show ?thesis
    by (simp only: c list.map append.simps simp_thms)
qed



section \<open>Preflight\<close>



section \<open>The extension loader\<close>








end
